theory Spec2Isabelle
  imports Complex_Main
begin

section \<open>Python and numpy primitives\<close>

text \<open>
  The program is \<^verbatim>\<open>fit_searev_data.py\<close>. A numpy array of floats is a list of
  reals: arithmetic is exact, rounding is not modelled. The range of float64 is modelled
  where a value is normalised by itself, in \<^verbatim>\<open>acf\<close>. Python integers (lags,
  \<open>maxlags\<close>) are \<open>int\<close>, lengths are \<open>nat\<close>.

  An exception of the source is an \<open>Inl\<close> value. Where numpy does not raise but
  stores \<open>nan\<close> or \<open>inf\<close> (a division by zero, with a RuntimeWarning), the model
  answers \<open>Inl NotFinite\<close>: the reals have no such value.
\<close>

datatype error = ValueError | IndexError | LinAlgError | AssertionError | NotFinite

text \<open>A slice bound of Python: a negative bound counts from the end, and both are clipped.\<close>

definition slice_bound :: "nat \<Rightarrow> int \<Rightarrow> nat" where
  "slice_bound n k = (if k < 0 then nat (max 0 (int n + k)) else min n (nat k))"

text \<open>\<^verbatim>\<open>x[lo:]\<close>, \<^verbatim>\<open>x[:hi]\<close> and \<^verbatim>\<open>x[lo:hi]\<close>.\<close>

definition slice_from :: "'a list \<Rightarrow> int \<Rightarrow> 'a list" where
  "slice_from xs lo = drop (slice_bound (length xs) lo) xs"

definition slice_to :: "'a list \<Rightarrow> int \<Rightarrow> 'a list" where
  "slice_to xs hi = take (slice_bound (length xs) hi) xs"

definition slice :: "'a list \<Rightarrow> int \<Rightarrow> int \<Rightarrow> 'a list" where
  "slice xs lo hi =
     (let a = slice_bound (length xs) lo; b = slice_bound (length xs) hi
      in take (b - a) (drop a xs))"

text \<open>The position an index \<open>i\<close> denotes in an array of length \<open>n\<close>: \<open>i\<close> itself from
  0 on, \<open>n + i\<close> for a negative \<open>i\<close>, none when that falls outside the array.\<close>

definition py_index :: "nat \<Rightarrow> int \<Rightarrow> nat option" where
  "py_index n i =
     (if 0 \<le> i \<and> i < int n then Some (nat i)
      else if i < 0 \<and> - int n \<le> i then Some (nat (int n + i))
      else None)"

text \<open>\<^verbatim>\<open>a[i]\<close> and \<^verbatim>\<open>a[i] = v\<close>, raising IndexError outside the array.\<close>

definition getitem :: "'a list \<Rightarrow> int \<Rightarrow> error + 'a" where
  "getitem xs i =
     (case py_index (length xs) i of None \<Rightarrow> Inl IndexError | Some j \<Rightarrow> Inr (xs ! j))"

definition setitem :: "'a list \<Rightarrow> int \<Rightarrow> 'a \<Rightarrow> error + 'a list" where
  "setitem xs i v =
     (case py_index (length xs) i of None \<Rightarrow> Inl IndexError | Some j \<Rightarrow> Inr (xs[j := v]))"

text \<open>An elementwise operation on two one-dimensional arrays, with numpy's broadcasting:
  equal lengths, or one of them of length 1; anything else raises ValueError.\<close>

definition broadcast :: "(real \<Rightarrow> real \<Rightarrow> real) \<Rightarrow> real list \<Rightarrow> real list \<Rightarrow> error + real list" where
  "broadcast f xs ys =
     (if length xs = length ys then Inr (map2 f xs ys)
      else if length xs = 1 then Inr (map (\<lambda>y. f (hd xs) y) ys)
      else if length ys = 1 then Inr (map (\<lambda>x. f x (hd ys)) xs)
      else Inl ValueError)"

definition np_mul :: "real list \<Rightarrow> real list \<Rightarrow> error + real list" where
  "np_mul xs ys = broadcast (\<lambda>a b. a * b) xs ys"

definition np_sub :: "real list \<Rightarrow> real list \<Rightarrow> error + real list" where
  "np_sub xs ys = broadcast (\<lambda>a b. a - b) xs ys"

text \<open>\<^verbatim>\<open>a / d\<close> for an array and a scalar: a zero divisor gives \<open>nan\<close> or \<open>inf\<close>
  in every entry.\<close>

definition np_div_scalar :: "real list \<Rightarrow> real \<Rightarrow> error + real list" where
  "np_div_scalar xs d =
     (if d = 0 \<and> xs \<noteq> [] then Inl NotFinite else Inr (map (\<lambda>a. a / d) xs))"

text \<open>\<^verbatim>\<open>a / b\<close> for two arrays.\<close>

definition np_div :: "real list \<Rightarrow> real list \<Rightarrow> error + real list" where
  "np_div xs ys =
     (case broadcast (\<lambda>a b. a / b) xs ys of
        Inl e \<Rightarrow> Inl e
      | Inr zs \<Rightarrow> if zs \<noteq> [] \<and> 0 \<in> set ys then Inl NotFinite else Inr zs)"

text \<open>\<^verbatim>\<open>np.inner\<close> of two one-dimensional arrays of the same length.\<close>

definition inner :: "real list \<Rightarrow> real list \<Rightarrow> error + real" where
  "inner xs ys =
     (if length xs = length ys then Inr (sum_list (map2 (\<lambda>a b. a * b) xs ys))
      else Inl ValueError)"

section \<open>Torque command law\<close>

definition damp :: real where "damp = 4000000"
definition torque_max :: real where "torque_max = 2000000"
definition power_max :: real where "power_max = 1100000"

text \<open>
  \<^verbatim>\<open>torque_law\<close> on one entry of the speed array. \<^verbatim>\<open>np.where\<close> selects
  elementwise; the branch it does not select (\<^verbatim>\<open>power_max/speed\<close> at speed 0) is
  discarded. Stage 1 is the max torque limitation, stage 2 the max power limitation.
\<close>

definition torque_limited :: "real \<Rightarrow> real" where
  "torque_limited speed =
     (let tor = speed * damp;
          tor = (if tor > torque_max then torque_max else tor);
          tor = (if tor < - torque_max then - torque_max else tor)
      in tor)"

definition torque_law :: "real \<Rightarrow> real" where
  "torque_law speed =
     (let tor = torque_limited speed;
          tor = (if tor * speed > power_max then power_max / speed else tor)
      in tor)"

section \<open>Empirical autocovariance and autocorrelation\<close>

text \<open>The value stored for lag \<open>h\<close>: \<^verbatim>\<open>np.sum(x[h:]*x[:N-h])/N\<close>. For \<open>N = 0\<close> numpy
  stores \<open>nan\<close>; the caller reports it once the loop is over.\<close>

definition acov_term :: "real list \<Rightarrow> int \<Rightarrow> error + real" where
  "acov_term x h =
     (let N = length x
      in case np_mul (slice_from x h) (slice_to x (int N - h)) of
           Inl e \<Rightarrow> Inl e
         | Inr xx \<Rightarrow> Inr (sum_list xx / real N))"

text \<open>The loop \<^verbatim>\<open>for h in lags: acov_x[h] = ...\<close>: the entry written is the one at
  index \<open>h\<close>, the lag itself.\<close>

fun acov_loop :: "real list \<Rightarrow> int list \<Rightarrow> real list \<Rightarrow> error + real list" where
  "acov_loop x [] acov_x = Inr acov_x"
| "acov_loop x (h # hs) acov_x =
     (case acov_term x h of
        Inl e \<Rightarrow> Inl e
      | Inr v \<Rightarrow>
          (case setitem acov_x h v of
             Inl e \<Rightarrow> Inl e
           | Inr acov_x' \<Rightarrow> acov_loop x hs acov_x'))"

definition acov :: "real list \<Rightarrow> int \<Rightarrow> int list option \<Rightarrow> error + real list" where
  "acov x maxlags lags_opt =
     (let lags = (case lags_opt of None \<Rightarrow> [0..maxlags] | Some ls \<Rightarrow> ls);
          N = length x
      in case acov_loop x lags (replicate (length lags) 0) of
           Inl e \<Rightarrow> Inl e
         | Inr acov_x \<Rightarrow> if N = 0 \<and> lags \<noteq> [] then Inl NotFinite else Inr acov_x)"

text \<open>
  The range of float64 under rounding to nearest: a value of magnitude
  \<open>2^1024 - 2^970\<close> or more becomes \<open>inf\<close>, a value of magnitude \<open>2^-1075\<close> or less
  becomes 0.
\<close>

definition float_overflow :: "real \<Rightarrow> bool" where
  "float_overflow v = (2 ^ 1024 - 2 ^ 970 \<le> \<bar>v\<bar>)"

definition float_underflow :: "real \<Rightarrow> bool" where
  "float_underflow v = (\<bar>v\<bar> \<le> 1 / 2 ^ 1075)"

text \<open>
  \<^verbatim>\<open>acf\<close> divides the autocovariances by their entry 0. That entry is
  \<^verbatim>\<open>np.sum(...)/N\<close>: when the sum, \<open>N\<close> times the entry, overflows, the entry is
  \<open>inf\<close> and the quotient \<open>inf/inf\<close> is \<open>nan\<close>; when the entry underflows it is 0
  and the quotient \<open>0/0\<close> is \<open>nan\<close>.
\<close>

definition acf :: "real list \<Rightarrow> int \<Rightarrow> int list option \<Rightarrow> error + real list" where
  "acf x maxlags lags_opt =
     (case acov x maxlags lags_opt of
        Inl e \<Rightarrow> Inl e
      | Inr acov_x \<Rightarrow>
          (case getitem acov_x 0 of
             Inl e \<Rightarrow> Inl e
           | Inr c0 \<Rightarrow>
               if float_overflow (c0 * real (length x)) \<or> float_underflow c0
               then Inl NotFinite
               else np_div_scalar acov_x c0))"

text \<open>The empirical autocovariance of \<open>x\<close> at lag \<open>h\<close> with \<open>0 \<le> h < N\<close>, as a sum:
  \<open>(1/N) \<Sum>t<N-h. x[t] x[t+h]\<close>.\<close>

definition autocov :: "real list \<Rightarrow> nat \<Rightarrow> real" where
  "autocov x h = (\<Sum>t<length x - h. x ! t * x ! (t + h)) / real (length x)"

section \<open>Analytic autocovariance of an ARMA model\<close>

text \<open>The dictionary \<^verbatim>\<open>{'ar': [...], 'ma': [...]}\<close>.\<close>

record model =
  ar :: "real list"
  ma :: "real list"

text \<open>
  \<^verbatim>\<open>scipy.signal.lfilter(b, a, x)\<close>, the difference equation
  \<open>a[0] y[n] = \<Sum>k. b[k] x[n-k] - \<Sum>k\<ge>1. a[k] y[n-k]\<close> from rest. The past inputs and
  outputs are kept most recent first; \<open>zip\<close> stops at the shorter list, as the sums stop
  at the start of the signal. The filter is refused when \<open>a[0] = 0\<close>.
\<close>

fun lfilter_run :: "real list \<Rightarrow> real list \<Rightarrow> real list \<Rightarrow> real list \<Rightarrow> real list \<Rightarrow> real list" where
  "lfilter_run b a [] xpast ypast = []"
| "lfilter_run b a (xn # xs) xpast ypast =
     (let yn = (sum_list (map2 (\<lambda>u v. u * v) b (xn # xpast))
                - sum_list (map2 (\<lambda>u v. u * v) (tl a) ypast)) / hd a
      in yn # lfilter_run b a xs (xn # xpast) (yn # ypast))"

definition lfilter :: "real list \<Rightarrow> real list \<Rightarrow> real list \<Rightarrow> error + real list" where
  "lfilter b a x =
     (if a = [] \<or> hd a = 0 then Inl ValueError else Inr (lfilter_run b a x [] []))"

text \<open>\<^verbatim>\<open>scipy.linalg.toeplitz(c, r)\<close>: first column \<open>c\<close>, first row \<open>r\<close> (its entry 0
  is not read). A matrix is the list of its rows.\<close>

definition toeplitz :: "real list \<Rightarrow> real list \<Rightarrow> real list list" where
  "toeplitz c r =
     map (\<lambda>i. map (\<lambda>j. if j \<le> i then c ! (i - j) else r ! (j - i)) [0..<length r])
       [0..<length c]"

text \<open>\<^verbatim>\<open>np.hstack\<close> and the sum of two matrices of the same shape.\<close>

definition hstack :: "real list list \<Rightarrow> real list list \<Rightarrow> real list list" where
  "hstack A B = map2 (\<lambda>ra rb. ra @ rb) A B"

definition mat_add :: "real list list \<Rightarrow> real list list \<Rightarrow> real list list" where
  "mat_add A B = map2 (\<lambda>ra rb. map2 (\<lambda>u v. u + v) ra rb) A B"

text \<open>
  \<^verbatim>\<open>np.linalg.solve(A, b)\<close>: the solution of the square system \<open>A x = b\<close>, or
  LinAlgError when \<open>A\<close> is singular. In exact arithmetic the solution is the one of
  Cramer's rule, with the determinant expanded along the first row.
\<close>

definition del_col :: "nat \<Rightarrow> real list \<Rightarrow> real list" where
  "del_col j row = take j row @ drop (Suc j) row"

function det :: "real list list \<Rightarrow> real" where
  "det [] = 1"
| "det (r # rs) =
     sum_list (map (\<lambda>j. (- 1) ^ j * r ! j * det (map (del_col j) rs)) [0..<length r])"
  by pat_completeness auto
termination
  by (relation "measure length") auto

definition replace_col :: "real list list \<Rightarrow> nat \<Rightarrow> real list \<Rightarrow> real list list" where
  "replace_col A i b = map2 (\<lambda>row v. row[i := v]) A b"

definition solve :: "real list list \<Rightarrow> real list \<Rightarrow> error + real list" where
  "solve A b =
     (if list_ex (\<lambda>row. length row \<noteq> length A) A then Inl LinAlgError
      else if length b \<noteq> length A then Inl ValueError
      else if det A = 0 then Inl LinAlgError
      else Inr (map (\<lambda>i. det (replace_col A i b) / det A) [0..<length b]))"

text \<open>
  The first part of \<^verbatim>\<open>arma_acov\<close>: the impulse response, the right-hand side \<open>b\<close>,
  the folded Toeplitz matrix \<open>A\<close> and the covariances \<open>cov(0) .. cov(n)\<close> that solve
  \<open>A cov = b\<close>, with \<open>n = max p (q+1)\<close>.
\<close>

definition arma_order :: "model \<Rightarrow> nat" where
  "arma_order model = max (length (ar model)) (length (ma model) + 1)"

definition cov_n :: "model \<Rightarrow> real \<Rightarrow> error + real list" where
  "cov_n model innov_var =
     (let ar_coef = ar model; ma_coef = ma model;
          p = length ar_coef; q = length ma_coef;
          delta = (replicate (q + 1) 0)[0 := 1];
          num = [1] @ ma_coef;
          den = [1] @ map uminus ar_coef
      in case lfilter num den delta of
           Inl e \<Rightarrow> Inl e
         | Inr imp_res \<Rightarrow>
             (if length imp_res \<noteq> q + 1 then Inl AssertionError
              else
                (let n = max p (q + 1);
                     imp_res_rev = rev imp_res @ replicate n 0
                 in (case lfilter num [1] imp_res_rev of
                       Inl e \<Rightarrow> Inl e
                     | Inr b \<Rightarrow>
                         (let b = slice_from b (int q)
                          in if length b \<noteq> n + 1 then Inl AssertionError
                             else
                               (let b = map (\<lambda>v. v * innov_var) b;
                                    ar_coef_ext = ar_coef @ replicate (n - p) 0;
                                    r = map uminus (rev ar_coef_ext) @ [1] @ replicate n 0;
                                    c = (replicate (n + 1) 0)[0 := - last ar_coef_ext];
                                    M = toeplitz c r;
                                    M_neg = map (take n) M;
                                    M_0 = map (\<lambda>row. take 1 (drop n row)) M;
                                    M_pos = map (drop (n + 1)) M;
                                    A = hstack M_0 (mat_add M_pos (map rev M_neg))
                                in solve A b))))))"

text \<open>The loop \<^verbatim>\<open>for i in range(n+1, maxlags+1): cov[i] = np.inner(cov[i-p:i], ar_coef[::-1])\<close>.\<close>

fun ar_extend :: "real list \<Rightarrow> nat list \<Rightarrow> real list \<Rightarrow> error + real list" where
  "ar_extend ar_coef [] cov = Inr cov"
| "ar_extend ar_coef (i # js) cov =
     (case inner (slice cov (int i - int (length ar_coef)) (int i)) (rev ar_coef) of
        Inl e \<Rightarrow> Inl e
      | Inr v \<Rightarrow>
          (case setitem cov (int i) v of
             Inl e \<Rightarrow> Inl e
           | Inr cov' \<Rightarrow> ar_extend ar_coef js cov'))"

text \<open>\<^verbatim>\<open>cov[:k] = vals\<close> with \<open>k\<close> at most the length of \<open>cov\<close>.\<close>

definition set_prefix :: "real list \<Rightarrow> nat \<Rightarrow> real list \<Rightarrow> error + real list" where
  "set_prefix cov k vals =
     (if length vals = k then Inr (vals @ drop k cov)
      else if length vals = 1 then Inr (replicate k (hd vals) @ drop k cov)
      else Inl ValueError)"

definition arma_acov :: "model \<Rightarrow> int \<Rightarrow> real \<Rightarrow> error + real list" where
  "arma_acov model maxlags innov_var =
     (case cov_n model innov_var of
        Inl e \<Rightarrow> Inl e
      | Inr cn \<Rightarrow>
          let n = arma_order model
          in if maxlags \<le> int n then Inr (slice_to cn (maxlags + 1))
             else
               (case set_prefix (replicate (nat (maxlags + 1)) 0) (n + 1) cn of
                  Inl e \<Rightarrow> Inl e
                | Inr cov \<Rightarrow> ar_extend (ar model) [n + 1..<nat (maxlags + 1)] cov))"

definition arma_acf :: "model \<Rightarrow> int \<Rightarrow> error + real list" where
  "arma_acf model maxlags =
     (case arma_acov model maxlags 1 of
        Inl e \<Rightarrow> Inl e
      | Inr acov_m \<Rightarrow>
          (case getitem acov_m 0 of
             Inl e \<Rightarrow> Inl e
           | Inr c0 \<Rightarrow> np_div_scalar acov_m c0))"

section \<open>Fit of an AR(p) model on the autocorrelation\<close>

text \<open>
  Two values computed one after the other and then combined. An exception raised by the
  second overrides a \<open>nan\<close> stored by the first, as numpy goes on after a \<open>nan\<close>.
\<close>

definition both :: "error + 'a \<Rightarrow> error + 'b \<Rightarrow> error + ('a \<times> 'b)" where
  "both u v =
     (case u of
        Inl e \<Rightarrow>
          (if e = NotFinite then (case v of Inl e' \<Rightarrow> Inl e' | Inr _ \<Rightarrow> Inl NotFinite)
           else Inl e)
      | Inr a \<Rightarrow> (case v of Inl e \<Rightarrow> Inl e | Inr b \<Rightarrow> Inr (a, b)))"

text \<open>The regressor matrix \<open>X\<close>, as the list of its \<open>p\<close> columns
  (\<^verbatim>\<open>X[:,i] = x[i+1:n-p+i+1]\<close>), and the target \<^verbatim>\<open>y = x[:n-p]\<close>.\<close>

definition regressor :: "real list \<Rightarrow> nat \<Rightarrow> real list list" where
  "regressor x p =
     (let n = length x
      in map (\<lambda>i. slice x (int i + 1) (int n - int p + int i + 1)) [0..<p])"

definition target :: "real list \<Rightarrow> nat \<Rightarrow> real list" where
  "target x p = slice_to x (int (length x) - int p)"

text \<open>\<^verbatim>\<open>np.mean\<close> of an array: \<open>nan\<close> on the empty array.\<close>

definition np_mean :: "real list \<Rightarrow> error + real" where
  "np_mean xs = (if xs = [] then Inl NotFinite else Inr (sum_list xs / real (length xs)))"

definition cov_objective :: "real list \<Rightarrow> int \<Rightarrow> real list \<Rightarrow> error + real" where
  "cov_objective x maxlags ar_coef =
     (case both (arma_acf \<lparr>ar = ar_coef, ma = []\<rparr> maxlags) (acf x maxlags None) of
        Inl e \<Rightarrow> Inl e
      | Inr (acf_ar, acf_x) \<Rightarrow>
          (case np_sub acf_ar acf_x of
             Inl e \<Rightarrow> Inl e
           | Inr acf_error \<Rightarrow> np_mean (map (\<lambda>e. e ^ 2) acf_error)))"

text \<open>
  \<^verbatim>\<open>ar_acf_fit\<close>. The least-squares solver \<^verbatim>\<open>np.linalg.lstsq\<close> and the optimizer
  \<^verbatim>\<open>scipy.optimize.fmin\<close> are library routines: they are parameters, \<open>lstsq\<close> from
  the columns of \<open>X\<close> and \<open>y\<close> to the coefficients, \<open>fmin\<close> from the objective and the
  first guess to the minimizer. \<open>maxlags\<close> is None or an integer.
\<close>

definition ar_acf_fit ::
  "(real list list \<Rightarrow> real list \<Rightarrow> error + real list) \<Rightarrow>
   ((real list \<Rightarrow> error + real) \<Rightarrow> real list \<Rightarrow> error + real list) \<Rightarrow>
   real list \<Rightarrow> int \<Rightarrow> int option \<Rightarrow> error + (real list \<times> real)" where
  "ar_acf_fit lstsq fmin x p maxlags =
     (if \<not> p \<ge> 0 then Inl AssertionError
      else
        let n = length x
        in if int n - p < 0 then Inl ValueError
           else
             (case lstsq (regressor x (nat p)) (target x (nat p)) of
                Inl e \<Rightarrow> Inl e
              | Inr ar_coef0 \<Rightarrow>
                  (case (case maxlags of
                           Some ml \<Rightarrow> fmin (cov_objective x ml) ar_coef0
                         | None \<Rightarrow> Inr ar_coef0) of
                     Inl e \<Rightarrow> Inl e
                   | Inr ar_coef \<Rightarrow>
                       (case both (acov x 0 None) (arma_acov \<lparr>ar = ar_coef, ma = []\<rparr> 0 1) of
                          Inl e \<Rightarrow> Inl e
                        | Inr (c, g) \<Rightarrow>
                            (case np_div c g of
                               Inl e \<Rightarrow> Inl e
                             | Inr quot \<Rightarrow>
                                 (case getitem quot 0 of
                                    Inl e \<Rightarrow> Inl e
                                  | Inr res_var \<Rightarrow> Inr (ar_coef, res_var)))))))"








section \<open>State-space model\<close>

text \<open>A state is the pair (speed, accel); a \<open>2 \<times> 2\<close> matrix is the pair of its rows.\<close>

type_synonym vec2 = "real \<times> real"
type_synonym mat2 = "vec2 \<times> vec2"

text \<open>The conversion of AR(2) coefficients \<open>p1\<close>, \<open>p2\<close> to the transition matrix, for
  the sample interval \<open>dt\<close> (0.1 in the program).\<close>

definition T_AR2 :: "real \<Rightarrow> real \<Rightarrow> real \<Rightarrow> mat2" where
  "T_AR2 p1 p2 dt = ((p1 + p2, - dt * p2), ((p1 + p2 - 1) / dt, - p2))"

definition np_dot :: "mat2 \<Rightarrow> vec2 \<Rightarrow> vec2" where
  "np_dot T v =
     (case T of ((a, b), (c, d)) \<Rightarrow> (case v of (u, w) \<Rightarrow> (a * u + b * w, c * u + d * w)))"

definition vec_add :: "vec2 \<Rightarrow> vec2 \<Rightarrow> vec2" where
  "vec_add u v = (fst u + fst v, snd u + snd v)"

text \<open>
  The prediction and the simulation trajectory, each an array of shape
  \<open>2 \<times> (maxlags+1)\<close> stored as the list of its columns. \<open>err_sim\<close> holds the
  \<open>maxlags\<close> innovations drawn by \<^verbatim>\<open>multivariate_normal\<close>, one column each; the
  last observed state is \<open>x0\<close>.
\<close>

record trajectories =
  X_prev :: "vec2 list"
  X_traj :: "vec2 list"

fun traj_loop :: "mat2 \<Rightarrow> vec2 list \<Rightarrow> nat list \<Rightarrow> trajectories \<Rightarrow> trajectories" where
  "traj_loop T err_sim [] s = s"
| "traj_loop T err_sim (i # js) s =
     traj_loop T err_sim js
       \<lparr>X_prev = (X_prev s)[i := np_dot T (X_prev s ! (i - 1))],
        X_traj = (X_traj s)[i := vec_add (np_dot T (X_traj s ! (i - 1))) (err_sim ! (i - 1))]\<rparr>"

definition trajectory :: "mat2 \<Rightarrow> vec2 \<Rightarrow> vec2 list \<Rightarrow> nat \<Rightarrow> trajectories" where
  "trajectory T x0 err_sim maxlags =
     traj_loop T err_sim [1..<maxlags + 1]
       \<lparr>X_prev = (replicate (maxlags + 1) (0, 0))[0 := x0],
        X_traj = (replicate (maxlags + 1) (0, 0))[0 := x0]\<rparr>"

text \<open>
  The deterministic prediction as the specification words it: \<open>X[0] = x0\<close> and
  \<open>X[i] = T \<cdot> X[i-1]\<close>, a trajectory of \<open>horizon + 1\<close> states.
\<close>

primrec predict_state :: "mat2 \<Rightarrow> vec2 \<Rightarrow> nat \<Rightarrow> vec2" where
  "predict_state T x0 0 = x0"
| "predict_state T x0 (Suc i) = np_dot T (predict_state T x0 i)"

definition predict :: "mat2 \<Rightarrow> vec2 \<Rightarrow> nat \<Rightarrow> vec2 list" where
  "predict T x0 horizon = map (predict_state T x0) [0..<horizon + 1]"

text \<open>Two matrices agree up to the tolerance \<open>tol\<close> in each entry.\<close>

definition mat_close :: "real \<Rightarrow> mat2 \<Rightarrow> mat2 \<Rightarrow> bool" where
  "mat_close tol A B =
     (\<bar>fst (fst A) - fst (fst B)\<bar> \<le> tol \<and> \<bar>snd (fst A) - snd (fst B)\<bar> \<le> tol \<and>
      \<bar>fst (snd A) - fst (snd B)\<bar> \<le> tol \<and> \<bar>snd (snd A) - snd (snd B)\<bar> \<le> tol)"

section \<open>Properties of the torque law\<close>

lemma torque_limited_bound: "\<bar>torque_limited speed\<bar> \<le> torque_max"
  by (auto simp add: torque_limited_def torque_max_def Let_def)

lemma power_branch:
  assumes "torque_limited speed * speed > power_max"
  shows "torque_law speed * speed = power_max" and "\<bar>torque_law speed\<bar> < torque_max"
proof -
  have pm: "0 < power_max" by (simp add: power_max_def)
  from assms pm have nz: "speed \<noteq> 0" by auto
  have tl: "torque_law speed = power_max / speed"
    using assms by (simp add: torque_law_def Let_def)
  show "torque_law speed * speed = power_max" using nz by (simp add: tl)
  have "torque_limited speed * speed \<le> \<bar>torque_limited speed\<bar> * \<bar>speed\<bar>"
    by (metis abs_ge_self abs_mult)
  also have "\<dots> \<le> torque_max * \<bar>speed\<bar>"
    by (rule mult_right_mono [OF torque_limited_bound]) simp
  finally have "power_max < torque_max * \<bar>speed\<bar>" using assms by simp
  moreover have "0 < \<bar>speed\<bar>" using nz by simp
  ultimately have "power_max / \<bar>speed\<bar> < torque_max"
    by (simp add: pos_divide_less_eq)
  then show "\<bar>torque_law speed\<bar> < torque_max" using pm by (simp add: tl)
qed

text \<open>
  C10. For every real speed, zero included, the torque of \<^verbatim>\<open>torque_law\<close> is at most
  \<open>torque_max\<close> in absolute value and the power \<open>torque * speed\<close> is at most
  \<open>power_max\<close>. When the power limitation fires (the torque-limited torque times the
  speed exceeds \<open>power_max\<close>), the power is exactly \<open>power_max\<close> and the torque is
  strictly below \<open>torque_max\<close> in absolute value.
\<close>

theorem torque_law_saturation:
  "\<bar>torque_law speed\<bar> \<le> torque_max \<and> torque_law speed * speed \<le> power_max \<and>
   (torque_limited speed * speed > power_max \<longrightarrow>
      torque_law speed * speed = power_max \<and> \<bar>torque_law speed\<bar> < torque_max)"
proof (cases "torque_limited speed * speed > power_max")
  case True
  from power_branch [OF True] show ?thesis by simp
next
  case False
  then have "torque_law speed = torque_limited speed" by (simp add: torque_law_def Let_def)
  with False torque_limited_bound [of speed] show ?thesis by simp
qed

text \<open>At speed 1 rad/s the damping torque 4e6 is cut to 2e6, the power 2e6 exceeds
  \<open>power_max\<close>, and the torque becomes 1.1e6.\<close>

theorem torque_law_saturation_witness:
  "torque_limited 1 * 1 > power_max \<and> torque_law 1 = 1100000 \<and>
   torque_law 1 * 1 = power_max \<and> \<bar>torque_law 1\<bar> < torque_max"
  using torque_law_saturation [of 1]
  by (simp add: torque_law_def torque_limited_def damp_def torque_max_def power_max_def Let_def)

section \<open>Properties of the state-space model\<close>

text \<open>
  C3, as stated: the conversion of \<open>(0.9, -0.05)\<close> with \<open>dt = 0.1\<close> would give
  \<open>[[0.85, 0.005], [-0.95, 0.05]]\<close>. The lower left entry of the code is
  \<open>(0.9 - 0.05 - 1) / 0.1 = -1.5\<close>: the two matrices are not even within 0.5 of each other.
\<close>

theorem T_AR2_example_counterexample:
  "\<not> mat_close (1 / 2) (T_AR2 (9 / 10) (- (5 / 100)) (1 / 10))
       ((85 / 100, 5 / 1000), (- (95 / 100), 5 / 100))"
  by (simp add: mat_close_def T_AR2_def)

text \<open>
  C3, amended: the conversion of \<open>(0.9, -0.05)\<close> with \<open>dt = 0.1\<close> gives
  \<open>[[0.85, 0.005], [-1.5, 0.05]]\<close>.
\<close>

theorem T_AR2_example:
  "T_AR2 (9 / 10) (- (5 / 100)) (1 / 10) = ((85 / 100, 5 / 1000), (- (15 / 10), 5 / 100))"
  by (simp add: T_AR2_def)

lemma traj_loop_append:
  "traj_loop T e (is @ js) s = traj_loop T e js (traj_loop T e is s)"
  by (induction "is" arbitrary: s) simp_all

lemma vec_add_zero: "vec_add v (0, 0) = v"
  by (simp add: vec_add_def)

lemma update_filled:
  assumes "k < m"
  shows "(map f [0..<Suc k] @ replicate (m - k) z)[Suc k := v]
         = map f [0..<Suc k] @ [v] @ replicate (m - Suc k) z"
proof -
  from assms obtain d where d: "m - k = Suc d" by (metis Suc_diff_Suc)
  then have "m - Suc k = d" by simp
  with d show ?thesis by (simp add: list_update_append)
qed

text \<open>The state of both arrays after the rounds \<open>1 .. k\<close> of the loop, when every
  innovation is the zero vector.\<close>

lemma traj_loop_zero_noise:
  assumes "k \<le> m"
  shows "traj_loop T (replicate m (0, 0)) [1..<Suc k]
           \<lparr>X_prev = (replicate (m + 1) (0, 0))[0 := x0],
            X_traj = (replicate (m + 1) (0, 0))[0 := x0]\<rparr>
         = \<lparr>X_prev = map (predict_state T x0) [0..<Suc k] @ replicate (m - k) (0, 0),
            X_traj = map (predict_state T x0) [0..<Suc k] @ replicate (m - k) (0, 0)\<rparr>"
  using assms
proof (induction k)
  case 0
  then show ?case by simp
next
  case (Suc k)
  then have km: "k < m" by simp
  have split: "[1..<Suc (Suc k)] = [1..<Suc k] @ [Suc k]" by simp
  have at_k: "(map (predict_state T x0) [0..<Suc k] @ replicate (m - k) (0, 0)) ! k
              = predict_state T x0 k"
    by (simp add: nth_append del: upt_Suc)
  have filled: "map (predict_state T x0) [0..<Suc k] @ [np_dot T (predict_state T x0 k)]
                = map (predict_state T x0) [0..<Suc (Suc k)]"
    by simp
  show ?case
    unfolding split traj_loop_append
    using km Suc.IH
    by (simp add: at_k vec_add_zero update_filled filled del: upt_Suc map_append)
qed

text \<open>
  C9. For every transition matrix, initial state and horizon, the simulation whose
  innovations are all the zero vector (the draws for a zero covariance matrix) gives the
  trajectory of the deterministic prediction \<open>X[i] = T \<cdot> X[i-1]\<close>, \<open>X[0] = x0\<close>, at
  every step; the array \<^verbatim>\<open>X_prev\<close> of the program is that prediction.
\<close>

theorem zero_noise_simulation_is_prediction:
  "X_traj (trajectory T x0 (replicate maxlags (0, 0)) maxlags) = predict T x0 maxlags \<and>
   X_prev (trajectory T x0 (replicate maxlags (0, 0)) maxlags) = predict T x0 maxlags"
  unfolding trajectory_def predict_def
  using traj_loop_zero_noise [of maxlags maxlags T x0]
  by simp

section \<open>Properties of the empirical autocovariance\<close>

lemma sum_list_map2_nth:
  assumes "length xs = length ys"
  shows "sum_list (map2 f xs ys) = (\<Sum>i<length xs. f (xs ! i) (ys ! i))"
proof -
  have "sum_list (map2 f xs ys) = (\<Sum>i = 0..<length (map2 f xs ys). map2 f xs ys ! i)"
    by (rule sum_list_sum_nth)
  also have "\<dots> = (\<Sum>i = 0..<length xs. f (xs ! i) (ys ! i))"
    using assms by (intro sum.cong) simp_all
  finally show ?thesis by (simp add: atLeast0LessThan)
qed

text \<open>For a lag \<open>h\<close> from 0 to \<open>N\<close> the two slices have the same length \<open>N - h\<close>,
  and the value stored is the biased estimate.\<close>

lemma acov_term_dense:
  assumes "0 \<le> h" and "h \<le> int (length x)"
  shows "acov_term x h = Inr (autocov x (nat h))"
proof -
  define k where "k = nat h"
  with assms have h: "h = int k" and k: "k \<le> length x" by simp_all
  have sf: "slice_from x h = drop k x"
    using k by (simp add: slice_from_def slice_bound_def h)
  have st: "slice_to x (int (length x) - h) = take (length x - k) x"
    using k by (simp add: slice_to_def slice_bound_def h nat_diff_distrib')
  have len: "length (drop k x) = length (take (length x - k) x)"
    by simp
  have "sum_list (map2 (\<lambda>a b. a * b) (drop k x) (take (length x - k) x))
        = (\<Sum>t<length x - k. drop k x ! t * take (length x - k) x ! t)"
    by (simp add: sum_list_map2_nth [OF len])
  also have "\<dots> = (\<Sum>t<length x - k. x ! t * x ! (t + k))"
    using k by (intro sum.cong) (simp_all add: mult.commute add.commute)
  finally have "sum_list (map2 (\<lambda>a b. a * b) (drop k x) (take (length x - k) x))
        = (\<Sum>t<length x - k. x ! t * x ! (t + k))" .
  then show ?thesis
    using k by (simp add: acov_term_def sf st np_mul_def broadcast_def autocov_def Let_def k_def [symmetric])
qed

lemma setitem_in_range:
  assumes "0 \<le> h" and "nat h < length a"
  shows "setitem a h v = Inr (a[nat h := v])"
  using assms by (simp add: setitem_def py_index_def)

text \<open>The loop over the lags \<open>k .. m\<close> fills the entries \<open>k .. m\<close> and leaves the rest.\<close>

lemma acov_loop_dense:
  assumes "0 \<le> k" and "m \<le> int (length x)" and "nat (m + 1) \<le> length a"
  shows "acov_loop x [k..m] a
         = Inr (take (nat k) a @ map (autocov x) [nat k..<nat (m + 1)] @ drop (max (nat k) (nat (m + 1))) a)"
  using assms
proof (induction "nat (m + 1 - k)" arbitrary: k a)
  case 0
  then have "[k..m] = []" by simp
  moreover from 0 have "[nat k..<nat (m + 1)] = []" by simp
  moreover from 0 have "max (nat k) (nat (m + 1)) = nat k" by simp
  ultimately show ?case by simp
next
  case (Suc d)
  then have km: "k \<le> m" by linarith
  then have rec: "[k..m] = k # [k + 1..m]" by (simp add: upto_rec1)
  have t: "acov_term x k = Inr (autocov x (nat k))"
    using Suc.prems km by (intro acov_term_dense) simp_all
  have kl: "nat k < length a" using Suc.prems km by linarith
  have s: "setitem a k (autocov x (nat k)) = Inr (a[nat k := autocov x (nat k)])"
    using Suc.prems kl by (intro setitem_in_range) simp_all
  have d: "d = nat (m + 1 - (k + 1))" using Suc.hyps(2) by linarith
  have ih: "acov_loop x [k + 1..m] (a[nat k := autocov x (nat k)])
            = Inr (take (nat (k + 1)) (a[nat k := autocov x (nat k)])
                   @ map (autocov x) [nat (k + 1)..<nat (m + 1)]
                   @ drop (max (nat (k + 1)) (nat (m + 1))) (a[nat k := autocov x (nat k)]))"
    using Suc.prems by (intro Suc.hyps(1) [OF d]) simp_all
  have nk: "nat (k + 1) = Suc (nat k)" using Suc.prems by simp
  have mx: "max (Suc (nat k)) (nat (m + 1)) = nat (m + 1)"
       "max (nat k) (nat (m + 1)) = nat (m + 1)" using km Suc.prems by simp_all
  have up: "[nat k..<nat (m + 1)] = nat k # [Suc (nat k)..<nat (m + 1)]"
    using km Suc.prems by (intro upt_conv_Cons) linarith
  have tk: "take (Suc (nat k)) (a[nat k := autocov x (nat k)]) = take (nat k) a @ [autocov x (nat k)]"
    using kl by (simp add: take_Suc_conv_app_nth)
  have dr: "drop (nat (m + 1)) (a[nat k := autocov x (nat k)]) = drop (nat (m + 1)) a"
    using km Suc.prems by simp
  show ?case
    by (simp add: rec t s ih nk mx up tk dr del: upt_Suc)
qed

lemma acov_dense:
  assumes "0 \<le> maxlags" and "maxlags \<le> int (length x)" and "x \<noteq> []"
  shows "acov x maxlags None = Inr (map (autocov x) [0..<nat (maxlags + 1)])"
proof -
  have "acov_loop x [0..maxlags] (replicate (nat (maxlags + 1)) 0)
        = Inr (map (autocov x) [0..<nat (maxlags + 1)])"
    using assms by (subst acov_loop_dense) simp_all
  then show ?thesis using assms by (simp add: acov_def)
qed

lemma acov_negative_maxlags:
  assumes "maxlags < 0"
  shows "acov x maxlags None = Inr []"
  using assms by (simp add: acov_def)

lemma acov_loop_append:
  "acov_loop x (hs @ hs') a
   = (case acov_loop x hs a of Inl e \<Rightarrow> Inl e | Inr a' \<Rightarrow> acov_loop x hs' a')"
  by (induction hs arbitrary: a) (simp_all split: sum.splits)

text \<open>At lag \<open>N + 1\<close> the slice \<^verbatim>\<open>x[h:]\<close> is empty and \<^verbatim>\<open>x[:N-h]\<close> is
  \<^verbatim>\<open>x[:-1]\<close>, of length \<open>N - 1\<close>: the shapes do not broadcast once \<open>N \<ge> 3\<close>.\<close>

lemma acov_term_beyond:
  assumes "3 \<le> length x"
  shows "acov_term x (int (length x) + 1) = Inl ValueError"
proof -
  have sf: "slice_from x (int (length x) + 1) = []"
    by (simp add: slice_from_def slice_bound_def)
  have st: "length (slice_to x (int (length x) - (int (length x) + 1))) = length x - 1"
    by (simp add: slice_to_def slice_bound_def)
  have "np_mul [] (slice_to x (int (length x) - (int (length x) + 1))) = Inl ValueError"
    using assms unfolding np_mul_def broadcast_def st by simp
  then show ?thesis
    by (simp add: acov_term_def sf Let_def)
qed

lemma acov_beyond:
  assumes "3 \<le> length x" and "int (length x) < maxlags"
  shows "acov x maxlags None = Inl ValueError"
proof -
  define N where "N = int (length x)"
  have "[0..maxlags] = [0..N] @ [N + 1..maxlags]"
    using assms unfolding N_def by (intro upto_split2) simp_all
  moreover have "[N + 1..maxlags] = (N + 1) # [N + 1 + 1..maxlags]"
    using assms unfolding N_def by (intro upto_rec1) simp
  ultimately have sp: "[0..maxlags] = [0..N] @ (N + 1) # [N + 1 + 1..maxlags]"
    by simp
  have pre: "acov_loop x [0..N] (replicate (nat (maxlags + 1)) 0)
             = Inr (take (nat 0) (replicate (nat (maxlags + 1)) 0) @ map (autocov x) [nat 0..<nat (N + 1)]
                    @ drop (max (nat 0) (nat (N + 1))) (replicate (nat (maxlags + 1)) 0))"
    using assms unfolding N_def by (intro acov_loop_dense) simp_all
  have "acov_loop x [0..maxlags] (replicate (nat (maxlags + 1)) 0) = Inl ValueError"
    unfolding sp acov_loop_append pre
    using acov_term_beyond [OF assms(1)] by (simp add: N_def)
  then show ?thesis using assms by (simp add: acov_def)
qed

text \<open>
  C4, as stated: \<^verbatim>\<open>acov\<close> would fail with an InvalidLagError whenever
  \<open>maxlags \<ge> N\<close> or a requested lag is negative. On \<open>x = [1, 2]\<close> it returns three
  values for \<open>maxlags = 2 = N\<close>, and one value for the explicit lag \<open>-1\<close>.
\<close>

theorem acov_lag_guard_counterexample:
  "acov [1, 2] 2 None = Inr [5 / 2, 1, 0] \<and> acov [1, 2] 0 (Some [- 1]) = Inr [3]"
  by (simp add: acov_def acov_term_def np_mul_def broadcast_def slice_from_def slice_to_def
      slice_bound_def setitem_def py_index_def upto_rec1 Let_def)

lemma autocov_full_lag: "autocov x (length x) = 0"
  by (simp add: autocov_def)

text \<open>
  C4, amended: \<^verbatim>\<open>acov\<close> has no guard on the lags. For a non-empty \<open>x\<close> of length
  \<open>N\<close> and \<open>0 \<le> maxlags \<le> N\<close> it returns the \<open>maxlags + 1\<close> values
  \<open>(1/N) \<Sum>t<N-h. x[t] x[t+h]\<close>, the one at lag \<open>N\<close> being 0; for a negative
  \<open>maxlags\<close> it returns the empty sequence; for \<open>maxlags > N\<close> and \<open>N \<ge> 3\<close> it fails
  with the ValueError of numpy's broadcasting.
\<close>

theorem acov_unguarded:
  "(x \<noteq> [] \<and> 0 \<le> maxlags \<and> maxlags \<le> int (length x) \<longrightarrow>
      acov x maxlags None = Inr (map (autocov x) [0..<nat (maxlags + 1)])) \<and>
   autocov x (length x) = 0 \<and>
   (maxlags < 0 \<longrightarrow> acov x maxlags None = Inr []) \<and>
   (3 \<le> length x \<and> int (length x) < maxlags \<longrightarrow> acov x maxlags None = Inl ValueError)"
  using acov_dense [of maxlags x] acov_negative_maxlags [of maxlags x]
    acov_beyond [of x maxlags] autocov_full_lag [of x]
  by blast

text \<open>The three cases on \<open>x = [1, 2, 3]\<close>, with \<open>maxlags\<close> 3, -1 and 4.\<close>

theorem acov_unguarded_witness:
  "acov [1, 2, 3] 3 None = Inr [14 / 3, 8 / 3, 1, 0] \<and>
   acov [1, 2, 3] (- 1) None = Inr [] \<and>
   acov [1, 2, 3] 4 None = Inl ValueError"
  using acov_unguarded [of "[1, 2, 3]" 3] acov_unguarded [of "[1, 2, 3]" "- 1"]
    acov_unguarded [of "[1, 2, 3]" 4]
  by (simp add: autocov_def eval_nat_numeral lessThan_Suc)

text \<open>
  C5. With explicit lags the value for lag \<open>h\<close> is written at index \<open>h\<close> of an array of
  length \<^verbatim>\<open>len(lags)\<close>, not at the position of \<open>h\<close> in \<open>lags\<close>: on
  \<open>x = [1, 2, 3]\<close> the lags \<open>[2]\<close> raise IndexError, and the lags \<open>[1, 0]\<close> give the
  values in the order of the lags 0, 1.
\<close>

theorem acov_sparse_lags_misplaced:
  "acov [1, 2, 3] 0 (Some [2]) = Inl IndexError \<and>
   acov [1, 2, 3] 0 (Some [1, 0]) = Inr [14 / 3, 8 / 3]"
  by (simp add: acov_def acov_term_def np_mul_def broadcast_def slice_from_def slice_to_def
      slice_bound_def setitem_def py_index_def Let_def)










section \<open>Properties of the analytic autocovariance\<close>

lemma solve_length:
  assumes "solve A b = Inr cn"
  shows "length cn = length b"
  using assms by (auto simp add: solve_def split: if_splits)

lemma cov_n_length:
  assumes "cov_n model innov_var = Inr cn"
  shows "length cn = arma_order model + 1"
proof -
  from assms obtain A b where s: "solve A b = Inr cn" and l: "length b = arma_order model + 1"
    unfolding cov_n_def Let_def arma_order_def
    by (auto split: sum.splits if_splits)
  from solve_length [OF s] l show ?thesis by simp
qed

lemma det_2x2: "det [[a, b], [c, d]] = a * d - b * c"
  by (simp add: del_col_def)

text \<open>For an AR(1) model the impulse response is \<open>[1]\<close>, \<open>n = 1\<close>, and the folded
  system is \<open>cov(0) - phi cov(1) = innov_var\<close>, \<open>- phi cov(0) + cov(1) = 0\<close>.\<close>

lemma ar1_system:
  "cov_n \<lparr>ar = [phi], ma = []\<rparr> innov_var = solve [[1, - phi], [- phi, 1]] [innov_var, 0]"
  by (simp add: cov_n_def lfilter_def slice_from_def slice_bound_def toeplitz_def
      hstack_def mat_add_def Let_def)

lemma ar1_cov_n:
  assumes "phi\<^sup>2 \<noteq> 1"
  shows "cov_n \<lparr>ar = [phi], ma = []\<rparr> 1 = Inr [1 / (1 - phi\<^sup>2), phi / (1 - phi\<^sup>2)]"
proof -
  have d: "det [[1, - phi], [- phi, 1]] = 1 - phi\<^sup>2"
    by (simp add: det_2x2 power2_eq_square del: det.simps)
  have d0: "det (replace_col [[1, - phi], [- phi, 1]] 0 [1, 0]) = 1"
    by (simp add: replace_col_def det_2x2 del: det.simps)
  have d1: "det (replace_col [[1, - phi], [- phi, 1]] (Suc 0) [1, 0]) = phi"
    by (simp add: replace_col_def det_2x2 del: det.simps)
  have u: "[0..<length [1::real, 0]] = [0, Suc 0]" by (simp add: upt_rec)
  show ?thesis
    unfolding ar1_system solve_def u
    using assms by (simp add: d d0 d1 del: det.simps)
qed

lemma setitem_nat:
  assumes "i < length a"
  shows "setitem a (int i) v = Inr (a[i := v])"
  using assms by (simp add: setitem_def py_index_def)

lemma slice_window:
  assumes "p \<le> i" and "i \<le> length cov"
  shows "slice cov (int i - int p) (int i) = take p (drop (i - p) cov)"
proof -
  have b1: "slice_bound (length cov) (int i - int p) = i - p"
    using assms by (simp add: slice_bound_def nat_diff_distrib')
  have b2: "slice_bound (length cov) (int i) = i"
    using assms by (simp add: slice_bound_def)
  show ?thesis using assms by (simp add: slice_def b1 b2 Let_def)
qed

lemma take1_drop:
  assumes "n < length xs"
  shows "take (Suc 0) (drop n xs) = [xs ! n]"
  using assms by (simp add: Cons_nth_drop_Suc [symmetric])

text \<open>The extension loop of an AR(1) model multiplies the last value by \<open>phi\<close>.\<close>

lemma ar1_extend:
  assumes "1 \<le> k" and "k \<le> m"
  shows "ar_extend [phi] [k..<m] (map (\<lambda>h. c * phi ^ h) [0..<k] @ replicate (m - k) 0)
         = Inr (map (\<lambda>h. c * phi ^ h) [0..<m])"
  using assms
proof (induction "m - k" arbitrary: k)
  case 0
  then show ?case by simp
next
  case (Suc d)
  let ?f = "\<lambda>h. c * phi ^ h"
  let ?cov = "map ?f [0..<k] @ replicate (m - k) 0"
  from Suc have km: "k < m" by simp
  have up: "[k..<m] = k # [Suc k..<m]" using km by (rule upt_conv_Cons)
  have len: "length ?cov = m" using km by simp
  have win: "slice ?cov (int k - int (length [phi])) (int k) = [?f (k - 1)]"
  proof -
    have "slice ?cov (int k - int (length [phi])) (int k) = take 1 (drop (k - 1) ?cov)"
      using slice_window [of 1 k ?cov] Suc.prems km by simp
    also have "\<dots> = [?cov ! (k - 1)]"
      using Suc.prems km len take1_drop [of "k - 1" ?cov] by simp
    also have "?cov ! (k - 1) = ?f (k - 1)"
      using Suc.prems by (simp add: nth_append del: upt_Suc)
    finally show ?thesis .
  qed
  have v: "inner [?f (k - 1)] (rev [phi]) = Inr (?f k)"
  proof -
    from Suc.prems obtain j where "k = Suc j" by (cases k) simp_all
    then show ?thesis by (simp add: inner_def)
  qed
  have st: "setitem ?cov (int k) (?f k) = Inr (?cov[k := ?f k])"
    using km by (intro setitem_nat) simp
  have upd: "?cov[k := ?f k] = map ?f [0..<Suc k] @ replicate (m - Suc k) 0"
  proof -
    from km obtain e where e: "m - k = Suc e" by (metis Suc_diff_Suc)
    then have "m - Suc k = e" by simp
    with e show ?thesis by (simp add: list_update_append)
  qed
  have d: "d = m - Suc k" using Suc.hyps(2) by simp
  have ih: "ar_extend [phi] [Suc k..<m] (map ?f [0..<Suc k] @ replicate (m - Suc k) 0)
            = Inr (map ?f [0..<m])"
    using km by (intro Suc.hyps(1) [OF d]) simp_all
  have "ar_extend [phi] (k # [Suc k..<m]) ?cov
        = ar_extend [phi] [Suc k..<m] (?cov[k := ?f k])"
    by (simp only: ar_extend.simps win v st sum.case)
  then show ?case
    by (simp only: up upd ih)
qed

lemma ar1_order: "arma_order \<lparr>ar = [phi], ma = []\<rparr> = 1"
  by (simp add: arma_order_def)

lemma ar1_arma_acov:
  assumes "phi\<^sup>2 \<noteq> 1" and "0 \<le> maxlags"
  shows "arma_acov \<lparr>ar = [phi], ma = []\<rparr> maxlags 1
         = Inr (map (\<lambda>h. 1 / (1 - phi\<^sup>2) * phi ^ h) [0..<nat (maxlags + 1)])"
proof (cases "maxlags \<le> 1")
  case True
  with assms(2) have "maxlags = 0 \<or> maxlags = 1" by linarith
  then show ?thesis
  proof
    assume z: "maxlags = 0"
    have "[0..<nat (0 + 1)] = [0]" by simp
    then show ?thesis
      by (simp add: z arma_acov_def ar1_cov_n [OF assms(1)] ar1_order slice_to_def
          slice_bound_def)
  next
    assume z: "maxlags = 1"
    have "[0..<nat (1 + 1)] = [0, Suc 0]" by (simp add: nat_2 upt_conv_Cons)
    then show ?thesis
      by (simp add: z arma_acov_def ar1_cov_n [OF assms(1)] ar1_order slice_to_def
          slice_bound_def)
  qed
next
  case False
  define m where "m = nat (maxlags + 1)"
  define c where "c = 1 / (1 - phi\<^sup>2)"
  from False have m: "2 \<le> m" by (simp add: m_def)
  have cn: "[1 / (1 - phi\<^sup>2), phi / (1 - phi\<^sup>2)] = map (\<lambda>h. c * phi ^ h) [0..<2]"
    by (simp add: c_def upt_conv_Cons numeral_2_eq_2)
  have pre: "set_prefix (replicate m 0) 2 (map (\<lambda>h. c * phi ^ h) [0..<2])
             = Inr (map (\<lambda>h. c * phi ^ h) [0..<2] @ replicate (m - 2) 0)"
    by (simp add: set_prefix_def)
  have ext: "ar_extend [phi] [2..<m] (map (\<lambda>h. c * phi ^ h) [0..<2] @ replicate (m - 2) 0)
             = Inr (map (\<lambda>h. c * phi ^ h) [0..<m])"
    using m by (intro ar1_extend) simp_all
  have two: "1 + 1 = (2::nat)" by simp
  have big: "\<not> maxlags \<le> int 1" using False by simp
  have "arma_acov \<lparr>ar = [phi], ma = []\<rparr> maxlags 1
        = ar_extend [phi] [2..<m] (map (\<lambda>h. c * phi ^ h) [0..<2] @ replicate (m - 2) 0)"
    by (simp only: arma_acov_def ar1_cov_n [OF assms(1)] ar1_order cn Let_def sum.case
        m_def [symmetric] pre model.simps big if_False two)
  then have "arma_acov \<lparr>ar = [phi], ma = []\<rparr> maxlags 1 = Inr (map (\<lambda>h. c * phi ^ h) [0..<m])"
    by (simp only: ext)
  then show ?thesis by (simp add: c_def m_def)
qed

text \<open>
  C1. For the pure AR(1) model \<^verbatim>\<open>{'ar': [phi], 'ma': []}\<close> with \<open>\<bar>phi\<bar> < 1\<close> and
  innovation variance 1, \<^verbatim>\<open>arma_acov(model, maxlags)\<close> returns \<open>maxlags + 1\<close> values,
  the one at every lag \<open>h\<close> from 0 to \<open>maxlags\<close> being \<open>phi^h / (1 - phi\<^sup>2)\<close>.
\<close>

theorem ar1_autocovariance:
  assumes "\<bar>phi\<bar> < 1" and "int h \<le> maxlags"
  shows "\<exists>cov. arma_acov \<lparr>ar = [phi], ma = []\<rparr> maxlags 1 = Inr cov \<and>
           length cov = nat (maxlags + 1) \<and> cov ! h = phi ^ h / (1 - phi\<^sup>2)"
proof -
  from assms(1) have "phi\<^sup>2 < 1" by (simp add: abs_square_less_1)
  then have ne: "phi\<^sup>2 \<noteq> 1" by simp
  from assms(2) have ml: "0 \<le> maxlags" and h: "h < nat (maxlags + 1)" by linarith+
  show ?thesis
    using h by (simp add: ar1_arma_acov [OF ne ml] del: upt_Suc)
qed

text \<open>At \<open>phi = 1/2\<close>, \<open>maxlags = 4\<close> and lag 3.\<close>

theorem ar1_autocovariance_witness:
  "\<bar>1 / 2 :: real\<bar> < 1 \<and> int 3 \<le> 4 \<and>
   (\<exists>cov. arma_acov \<lparr>ar = [1 / 2], ma = []\<rparr> 4 1 = Inr cov \<and>
           length cov = nat (4 + 1) \<and> cov ! 3 = (1 / 2) ^ 3 / (1 - (1 / 2)\<^sup>2))"
  using ar1_autocovariance [of "1 / 2" 3 4] by simp

lemma inner_window:
  assumes "length w = length ar_coef"
  shows "inner w (rev ar_coef)
         = Inr (\<Sum>j<length ar_coef. w ! j * ar_coef ! (length ar_coef - 1 - j))"
proof -
  have l: "length w = length (rev ar_coef)" using assms by simp
  have "sum_list (map2 (\<lambda>a b. a * b) w (rev ar_coef))
        = (\<Sum>j<length w. w ! j * rev ar_coef ! j)"
    by (rule sum_list_map2_nth [OF l])
  also have "\<dots> = (\<Sum>j<length ar_coef. w ! j * ar_coef ! (length ar_coef - 1 - j))"
    using assms by (intro sum.cong) (simp_all add: rev_nth)
  finally show ?thesis using assms by (simp add: inner_def)
qed

lemma window_sum_reindex:
  fixes c :: "nat \<Rightarrow> real"
  assumes "p \<le> a"
  shows "(\<Sum>j<p. c (a - p + j) * f (p - 1 - j)) = (\<Sum>k = 1..p. f (k - 1) * c (a - k))"
proof (rule sum.reindex_bij_witness [where i = "\<lambda>k. p - k" and j = "\<lambda>j. p - j"], goal_cases)
  case (5 j)
  with assms have "a - (p - j) = a - p + j" and "p - j - 1 = p - 1 - j" by auto
  then show ?case by (simp add: mult.commute)
qed auto

text \<open>The extension loop over \<open>a .. b - 1\<close> never fails when \<open>p \<le> a\<close>; it keeps the
  entries below \<open>a\<close> and every entry it writes obeys the AR recurrence in the final
  array.\<close>

lemma ar_extend_spec:
  assumes "length ar_coef \<le> a" and "a \<le> b" and "length cov = b"
  shows "\<exists>cov'. ar_extend ar_coef [a..<b] cov = Inr cov' \<and> length cov' = b \<and>
           take a cov' = take a cov \<and>
           (\<forall>i. a \<le> i \<and> i < b \<longrightarrow>
              cov' ! i = (\<Sum>k = 1..length ar_coef. ar_coef ! (k - 1) * cov' ! (i - k)))"
  using assms
proof (induction "b - a" arbitrary: a cov)
  case 0
  then show ?case by simp
next
  case (Suc d)
  define p where "p = length ar_coef"
  from Suc have ab: "a < b" by simp
  have up: "[a..<b] = a # [Suc a..<b]" using ab by (rule upt_conv_Cons)
  define w where "w = take p (drop (a - p) cov)"
  have win: "slice cov (int a - int (length ar_coef)) (int a) = w"
    unfolding w_def p_def using Suc.prems ab by (intro slice_window) simp_all
  have wl: "length w = length ar_coef"
    using Suc.prems ab by (simp add: w_def p_def)
  define v where "v = (\<Sum>j<p. w ! j * ar_coef ! (p - 1 - j))"
  have inn: "inner w (rev ar_coef) = Inr v"
    unfolding v_def p_def by (rule inner_window [OF wl])
  have st: "setitem cov (int a) v = Inr (cov[a := v])"
    using ab Suc.prems by (intro setitem_nat) simp
  have d: "d = b - Suc a" using Suc.hyps(2) by simp
  obtain cov' where
    run: "ar_extend ar_coef [Suc a..<b] (cov[a := v]) = Inr cov'" and
    len: "length cov' = b" and
    pre: "take (Suc a) cov' = take (Suc a) (cov[a := v])" and
    later: "\<forall>i. Suc a \<le> i \<and> i < b \<longrightarrow>
              cov' ! i = (\<Sum>k = 1..length ar_coef. ar_coef ! (k - 1) * cov' ! (i - k))"
    using Suc.hyps(1) [OF d, of "cov[a := v]"] Suc.prems ab by auto
  have same: "cov' ! i = (cov[a := v]) ! i" if "i \<le> a" for i
  proof -
    from that have "cov' ! i = take (Suc a) cov' ! i" by simp
    also have "\<dots> = take (Suc a) (cov[a := v]) ! i" by (simp only: pre)
    also have "\<dots> = (cov[a := v]) ! i" using that by simp
    finally show ?thesis .
  qed
  have at_a: "cov' ! a = v"
    using same [of a] ab Suc.prems by simp
  have before: "cov' ! i = cov ! i" if "i < a" for i
    using same [of i] that by simp
  have pre_a: "take a cov' = take a cov"
  proof (rule nth_equalityI)
    show "length (take a cov') = length (take a cov)"
      using len Suc.prems by simp
  next
    fix i assume "i < length (take a cov')"
    then show "take a cov' ! i = take a cov ! i" using before by simp
  qed
  have "v = (\<Sum>j<p. cov' ! (a - p + j) * ar_coef ! (p - 1 - j))"
    unfolding v_def
  proof (rule sum.cong)
    fix j assume "j \<in> {..<p}"
    then have j: "j < p" by simp
    with Suc.prems ab have "w ! j = cov ! (a - p + j)"
      by (simp add: w_def p_def)
    also have "\<dots> = cov' ! (a - p + j)"
      using before [of "a - p + j"] j Suc.prems by (simp add: p_def)
    finally show "w ! j * ar_coef ! (p - 1 - j) = cov' ! (a - p + j) * ar_coef ! (p - 1 - j)"
      by simp
  qed simp
  also have "\<dots> = (\<Sum>k = 1..p. ar_coef ! (k - 1) * cov' ! (a - k))"
    using Suc.prems by (intro window_sum_reindex) (simp add: p_def)
  finally have rec_a: "cov' ! a = (\<Sum>k = 1..length ar_coef. ar_coef ! (k - 1) * cov' ! (a - k))"
    by (simp add: at_a p_def)
  have all: "\<forall>i. a \<le> i \<and> i < b \<longrightarrow>
              cov' ! i = (\<Sum>k = 1..length ar_coef. ar_coef ! (k - 1) * cov' ! (i - k))"
  proof (intro allI impI)
    fix i assume i: "a \<le> i \<and> i < b"
    show "cov' ! i = (\<Sum>k = 1..length ar_coef. ar_coef ! (k - 1) * cov' ! (i - k))"
    proof (cases "i = a")
      case True
      with rec_a show ?thesis by simp
    next
      case False
      with i later show ?thesis by simp
    qed
  qed
  have "ar_extend ar_coef (a # [Suc a..<b]) cov = Inr cov'"
    by (simp only: ar_extend.simps win inn st sum.case run)
  with len pre_a all show ?case
    unfolding up by blast
qed

lemma set_prefix_exact:
  assumes "length vals = k" and "k \<le> length cov"
  shows "set_prefix cov k vals = Inr (vals @ drop k cov)"
  using assms by (simp add: set_prefix_def)

text \<open>
  C2. For every ARMA model whose linear system is solved (\<^verbatim>\<open>cov_n\<close> is returned) and
  every \<open>maxlags > n\<close>, with \<open>n = max p (q+1)\<close>, \<^verbatim>\<open>arma_acov\<close> returns \<open>maxlags + 1\<close>
  values that start with \<open>cov(0) .. cov(n)\<close> and satisfy
  \<open>cov(i) = \<Sum>k=1..p. ar_coef[k] cov(i-k)\<close> (coefficients counted from 1) at every
  \<open>i\<close> from \<open>n + 1\<close> to \<open>maxlags\<close>; for a pure MA model these entries are 0.
\<close>

theorem arma_acov_ar_recurrence:
  assumes "cov_n model innov_var = Inr cn" and "int (arma_order model) < maxlags"
  shows "\<exists>cov. arma_acov model maxlags innov_var = Inr cov \<and>
           length cov = nat (maxlags + 1) \<and>
           take (arma_order model + 1) cov = cn \<and>
           (\<forall>i. arma_order model < i \<and> int i \<le> maxlags \<longrightarrow>
              cov ! i = (\<Sum>k = 1..length (ar model). ar model ! (k - 1) * cov ! (i - k)) \<and>
              (ar model = [] \<longrightarrow> cov ! i = 0))"
proof -
  define n where "n = arma_order model"
  define m where "m = nat (maxlags + 1)"
  from assms(2) have nm: "n + 1 < m" by (simp add: n_def m_def)
  have cl: "length cn = n + 1" using cov_n_length [OF assms(1)] by (simp add: n_def)
  define cov0 where "cov0 = cn @ drop (n + 1) (replicate m (0::real))"
  have sp: "set_prefix (replicate m 0) (n + 1) cn = Inr cov0"
    unfolding cov0_def using cl nm by (intro set_prefix_exact) simp_all
  have l0: "length cov0 = m" using cl nm by (simp add: cov0_def)
  have pn: "length (ar model) \<le> n + 1" by (simp add: n_def arma_order_def)
  from ar_extend_spec [OF pn _ l0] nm obtain cov where
    run: "ar_extend (ar model) [n + 1..<m] cov0 = Inr cov" and
    len: "length cov = m" and
    pre: "take (n + 1) cov = take (n + 1) cov0" and
    rec: "\<forall>i. n + 1 \<le> i \<and> i < m \<longrightarrow>
            cov ! i = (\<Sum>k = 1..length (ar model). ar model ! (k - 1) * cov ! (i - k))"
    by auto
  have big: "\<not> maxlags \<le> int n" using assms(2) by (simp add: n_def)
  have res: "arma_acov model maxlags innov_var = Inr cov"
    by (simp only: arma_acov_def assms(1) sum.case Let_def n_def [symmetric] big if_False
        m_def [symmetric] sp run)
  have tk: "take (n + 1) cov = cn" using pre cl by (simp add: cov0_def)
  have "cov ! i = (\<Sum>k = 1..length (ar model). ar model ! (k - 1) * cov ! (i - k)) \<and>
        (ar model = [] \<longrightarrow> cov ! i = 0)" if "n < i \<and> int i \<le> maxlags" for i
  proof -
    from that have "n + 1 \<le> i \<and> i < m" by (auto simp add: m_def)
    with rec have r: "cov ! i = (\<Sum>k = 1..length (ar model). ar model ! (k - 1) * cov ! (i - k))"
      by blast
    then show ?thesis by auto
  qed
  with res len tk show ?thesis
    unfolding n_def [symmetric] m_def [symmetric] by blast
qed

lemma ma1_cov_n: "cov_n \<lparr>ar = [], ma = [1 / 2]\<rparr> 1 = Inr [5 / 4, 1 / 2, 0]"
  by code_simp

lemma ar1_half_cov_n: "cov_n \<lparr>ar = [1 / 2], ma = []\<rparr> 1 = Inr [4 / 3, 2 / 3]"
proof -
  have ne: "(1 / 2 :: real)\<^sup>2 \<noteq> 1" by (simp add: power2_eq_square)
  show ?thesis using ar1_cov_n [OF ne] by (simp add: power2_eq_square)
qed

text \<open>On the AR(1) model with \<open>phi = 1/2\<close> up to lag 4, and on the MA(1) model with
  coefficient \<open>1/2\<close> up to lag 5.\<close>

theorem arma_acov_ar_recurrence_witness:
  "cov_n \<lparr>ar = [1 / 2], ma = []\<rparr> 1 = Inr [4 / 3, 2 / 3] \<and>
   int (arma_order \<lparr>ar = [1 / 2], ma = []\<rparr>) < 4 \<and>
   (\<exists>cov. arma_acov \<lparr>ar = [1 / 2], ma = []\<rparr> 4 1 = Inr cov \<and> length cov = 5 \<and>
      take 2 cov = [4 / 3, 2 / 3] \<and>
      (\<forall>i. 1 < i \<and> int i \<le> 4 \<longrightarrow> cov ! i = 1 / 2 * cov ! (i - 1))) \<and>
   cov_n \<lparr>ar = [], ma = [1 / 2]\<rparr> 1 = Inr [5 / 4, 1 / 2, 0] \<and>
   int (arma_order \<lparr>ar = [], ma = [1 / 2]\<rparr>) < 5 \<and>
   (\<exists>cov. arma_acov \<lparr>ar = [], ma = [1 / 2]\<rparr> 5 1 = Inr cov \<and> length cov = 6 \<and>
      take 3 cov = [5 / 4, 1 / 2, 0] \<and>
      (\<forall>i. 2 < i \<and> int i \<le> 5 \<longrightarrow> cov ! i = 0))"
proof -
  have o1: "int (arma_order \<lparr>ar = [1 / 2], ma = []\<rparr>) < 4"
    and o2: "int (arma_order \<lparr>ar = [], ma = [1 / 2]\<rparr>) < 5"
    by (simp_all add: arma_order_def)
  show ?thesis
    using arma_acov_ar_recurrence [OF ar1_half_cov_n o1]
      arma_acov_ar_recurrence [OF ma1_cov_n o2] ar1_half_cov_n ma1_cov_n
    by (simp add: arma_order_def numeral_2_eq_2 numeral_3_eq_3)
qed

section \<open>Properties of the AR fit\<close>









lemma both_Inr:
  assumes "both u v = Inr (a, b)"
  shows "u = Inr a" and "v = Inr b"
  using assms by (auto simp add: both_def split: sum.splits if_splits)

lemma acov_lag0:
  assumes "acov x 0 None = Inr c"
  shows "c = [autocov x 0]"
proof (cases "x = []")
  case True
  with assms show ?thesis by (simp add: acov_def split: sum.splits)
next
  case False
  then have "acov x 0 None = Inr (map (autocov x) [0..<nat (0 + 1)])"
    by (intro acov_dense) simp_all
  with assms show ?thesis by simp
qed

lemma arma_acov_lag0:
  assumes "arma_acov model 0 innov_var = Inr g"
  shows "\<exists>cn. cov_n model innov_var = Inr cn \<and> g = [cn ! 0]"
proof -
  from assms obtain cn where cn: "cov_n model innov_var = Inr cn"
    by (auto simp add: arma_acov_def split: sum.splits)
  from cov_n_length [OF cn] obtain a rest where ar: "cn = a # rest"
    by (cases cn) simp_all
  from assms have "g = slice_to cn 1"
    by (simp add: arma_acov_def cn Let_def)
  then have "g = [cn ! 0]"
    by (simp add: ar slice_to_def slice_bound_def)
  with cn show ?thesis by blast
qed

text \<open>
  C8. Whenever \<^verbatim>\<open>ar_acf_fit\<close> returns coefficients and a residual variance (with or
  without the optimization), the residual variance is the empirical autocovariance of
  \<open>x\<close> at lag 0 divided by the analytic autocovariance at lag 0 of the fitted AR model
  under unit innovation variance, which is not zero; hence the residual variance times
  that model variance is the empirical variance of \<open>x\<close>.
\<close>

theorem ar_acf_fit_variance_match:
  assumes "ar_acf_fit lstsq fmin x p maxlags = Inr (ar_coef, res_var)"
  shows "\<exists>c0 g0. acov x 0 None = Inr [c0] \<and> c0 = autocov x 0 \<and>
           arma_acov \<lparr>ar = ar_coef, ma = []\<rparr> 0 1 = Inr [g0] \<and> g0 \<noteq> 0 \<and>
           res_var = c0 / g0 \<and> res_var * g0 = c0"
proof -
  from assms obtain c g quot where
    b: "both (acov x 0 None) (arma_acov \<lparr>ar = ar_coef, ma = []\<rparr> 0 1) = Inr (c, g)" and
    q: "np_div c g = Inr quot" and r: "getitem quot 0 = Inr res_var"
    by (auto simp add: ar_acf_fit_def Let_def split: sum.splits if_splits option.splits)
  from both_Inr [OF b] have ac: "acov x 0 None = Inr c"
    and ar: "arma_acov \<lparr>ar = ar_coef, ma = []\<rparr> 0 1 = Inr g" by simp_all
  from acov_lag0 [OF ac] have c: "c = [autocov x 0]" .
  from arma_acov_lag0 [OF ar] obtain g0 where g: "g = [g0]" by blast
  from q have nz: "g0 \<noteq> 0" and quot: "quot = [autocov x 0 / g0]"
    by (auto simp add: np_div_def broadcast_def c g split: if_splits)
  from r have rv: "res_var = autocov x 0 / g0"
    by (simp add: quot getitem_def py_index_def)
  show ?thesis
    using ac ar nz rv by (simp add: c g)
qed

text \<open>A run of the fit: \<open>x = [1, 2, 4]\<close>, \<open>p = 1\<close>, no \<open>maxlags\<close>, and a solver that
  answers the least-squares coefficient \<open>1/2\<close> of this regression.\<close>

lemma ar1_half_fit:
  "ar_acf_fit (\<lambda>X y. Inr [1 / 2]) (\<lambda>f x0. Inr x0) [1, 2, 4] 1 None = Inr ([1 / 2], 21 / 4)"
proof -
  have ne: "(1 / 2 :: real)\<^sup>2 \<noteq> 1" by (simp add: power2_eq_square)
  have g: "arma_acov \<lparr>ar = [1 / 2], ma = []\<rparr> 0 1 = Inr [4 / 3]"
    using ar1_arma_acov [OF ne, of 0] by (simp add: power2_eq_square)
  have c: "acov [1, 2, 4] 0 None = Inr [7]"
    using acov_dense [of 0 "[1, 2, 4]"] by (simp add: autocov_def eval_nat_numeral lessThan_Suc)
  show ?thesis
    by (simp add: ar_acf_fit_def g c both_def np_div_def broadcast_def getitem_def py_index_def)
qed

text \<open>On that run the empirical variance is 7, the model variance 4/3 and the residual
  variance 21/4.\<close>

theorem ar_acf_fit_variance_match_witness:
  "ar_acf_fit (\<lambda>X y. Inr [1 / 2]) (\<lambda>f x0. Inr x0) [1, 2, 4] 1 None = Inr ([1 / 2], 21 / 4) \<and>
   (\<exists>c0 g0. acov [1, 2, 4] 0 None = Inr [c0] \<and> c0 = autocov [1, 2, 4] 0 \<and>
           arma_acov \<lparr>ar = [1 / 2], ma = []\<rparr> 0 1 = Inr [g0] \<and> g0 \<noteq> 0 \<and>
           21 / 4 = c0 / g0 \<and> 21 / 4 * g0 = c0)"
  using ar_acf_fit_variance_match [OF ar1_half_fit] ar1_half_fit by simp

end
